theory Spec2Isabelle
  imports Complex_Main
begin

section \<open>The compile-time loop unroller of \<^verbatim>\<open>static-loop-unrollers/loop_unroller.h\<close>\<close>

text \<open>
  The header unrolls a loop while the program is compiled. A loop state is a
  specialisation \<^verbatim>\<open>LoopParams<CurrIdx, EndIdx, ChangeVal, Comparator, Modifier, StartIdx>\<close>;
  \<^verbatim>\<open>ForLoop\<close> is instantiated once per state and the body of each instance
  calls the user's functor with the current index and then the instance of the next state.

  The embedding therefore has two stages. Instantiating \<^verbatim>\<open>ForLoop\<close> either
  \<^item> produces the code of the call, a function from the state of the running program to
    its new state or to the exception that a callback threw: \<open>Some (Inr code)\<close>;
  \<^item> is rejected by the compiler: \<open>Some (Inl err)\<close>, and no callback ever runs;
  \<^item> never produces a call that returns: \<open>None\<close>. Either the chain of instantiations
    has no end or, where \<^verbatim>\<open>GetNext\<close> gives back the same specialisation, the instance
    calls itself for ever.

  The functor is passed by value and is modelled as a function of the index, the extra
  arguments and the state of the running program; the extra arguments are one value
  \<open>args\<close> (a tuple for a pack), handed on unchanged. Outside the model are a functor
  that changes its own members (each instance works on a copy), an argument passed as an
  rvalue from which the callback moves (line 170 forwards the pack that line 171 uses
  again), and the limits that a compiler puts on the number of instantiations.
\<close>

subsection \<open>The type \<^verbatim>\<open>int\<close> in constant expressions\<close>

text \<open>
  Every index is a template argument of type \<^verbatim>\<open>int\<close>, 32 bits wide on the platforms
  the build file names. An arithmetic overflow makes an expression no constant expression,
  and a template argument that is no constant expression is an error of compilation:
  the overflow does not wrap around.
\<close>

definition INT_MAX :: int where
  "INT_MAX = 2147483647"

definition INT_MIN :: int where
  "INT_MIN = - 2147483648"

definition representable :: "int \<Rightarrow> bool" where
  "representable v = (INT_MIN \<le> v \<and> v \<le> INT_MAX)"

datatype compile_error =
    NotConstantExpression   \<comment> \<open>a template argument overflows \<^verbatim>\<open>int\<close>\<close>
  | NoMatchingFunction      \<comment> \<open>every overload is disabled by its \<^verbatim>\<open>enable_if_t\<close>\<close>

subsection \<open>The functors of \<^verbatim>\<open><functional>\<close> that the header uses\<close>

definition std_less :: "int \<Rightarrow> int \<Rightarrow> bool" where
  "std_less a b = (a < b)"

definition std_less_equal :: "int \<Rightarrow> int \<Rightarrow> bool" where
  "std_less_equal a b = (a \<le> b)"

definition std_greater :: "int \<Rightarrow> int \<Rightarrow> bool" where
  "std_greater a b = (a > b)"

definition std_greater_equal :: "int \<Rightarrow> int \<Rightarrow> bool" where
  "std_greater_equal a b = (a \<ge> b)"

definition std_equal_to :: "int \<Rightarrow> int \<Rightarrow> bool" where
  "std_equal_to a b = (a = b)"

text \<open>The arithmetic functors give \<open>None\<close> where the result overflows.\<close>

definition std_plus :: "int \<Rightarrow> int \<Rightarrow> int option" where
  "std_plus a b = (if representable (a + b) then Some (a + b) else None)"

definition std_multiplies :: "int \<Rightarrow> int \<Rightarrow> int option" where
  "std_multiplies a b = (if representable (a * b) then Some (a * b) else None)"

subsection \<open>\<^verbatim>\<open>LoopParams\<close> (lines 33 to 115)\<close>

text \<open>
  The template parameters are the fields. \<open>Modifier\<close> is any functor that can be called
  in a constant expression; \<open>None\<close> is a call that is no constant expression.
  \<^verbatim>\<open>StartIdx\<close> defaults to \<^verbatim>\<open>CurrIdx\<close>, \<^verbatim>\<open>ChangeVal\<close> to 1, the functors to
  \<^verbatim>\<open>less<int>\<close> and \<^verbatim>\<open>plus<int>\<close>.
\<close>

record LoopParams =
  CurrIdx :: int
  EndIdx :: int
  ChangeVal :: int
  Comparator :: "int \<Rightarrow> int \<Rightarrow> bool"
  Modifier :: "int \<Rightarrow> int \<Rightarrow> int option"
  StartIdx :: int

text \<open>
  \<^verbatim>\<open>GetNext\<close> and \<^verbatim>\<open>Reset\<close> are given as the specialisation that their declared
  return type names (lines 48, 49 and 61, 62). Naming the next state evaluates
  \<^verbatim>\<open>Modifier()(CurrIdx, ChangeVal)\<close> as a template argument.
\<close>

definition GetNext :: "LoopParams \<Rightarrow> compile_error + LoopParams" where
  "GetNext LP =
     (case Modifier LP (CurrIdx LP) (ChangeVal LP) of
        None \<Rightarrow> Inl NotConstantExpression
      | Some v \<Rightarrow> Inr (LP\<lparr>CurrIdx := v\<rparr>))"

definition Reset :: "LoopParams \<Rightarrow> LoopParams" where
  "Reset LP = LP\<lparr>CurrIdx := StartIdx LP\<rparr>"

definition IsValid :: "LoopParams \<Rightarrow> bool" where
  "IsValid LP = Comparator LP (CurrIdx LP) (EndIdx LP)"

definition GetCurrIdx :: "LoopParams \<Rightarrow> int" where
  "GetCurrIdx LP = CurrIdx LP"

definition GetEndIdx :: "LoopParams \<Rightarrow> int" where
  "GetEndIdx LP = EndIdx LP"

definition GetChangeVal :: "LoopParams \<Rightarrow> int" where
  "GetChangeVal LP = ChangeVal LP"

definition GetComparator :: "LoopParams \<Rightarrow> int \<Rightarrow> int \<Rightarrow> bool" where
  "GetComparator LP = Comparator LP"

definition GetModifier :: "LoopParams \<Rightarrow> int \<Rightarrow> int \<Rightarrow> int option" where
  "GetModifier LP = Modifier LP"

definition GetStartIdx :: "LoopParams \<Rightarrow> int" where
  "GetStartIdx LP = StartIdx LP"

text \<open>
  An object of a specialisation can be created (\<^verbatim>\<open>LoopParams<...>()\<close>, lines 50, 63, 215
  and the like) only if the class can be instantiated. The instantiation of a class
  instantiates the declaration of each member function, hence the return type of
  \<^verbatim>\<open>GetNext\<close>: the class of a state exists only if its next index is a constant.
  \<open>object\<close> is the value of an expression that names a state and creates it.
\<close>

definition complete :: "LoopParams \<Rightarrow> compile_error + LoopParams" where
  "complete LP = (case GetNext LP of Inl err \<Rightarrow> Inl err | Inr _ \<Rightarrow> Inr LP)"

definition object :: "compile_error + LoopParams \<Rightarrow> compile_error + LoopParams" where
  "object t = (case t of Inl err \<Rightarrow> Inl err | Inr LP \<Rightarrow> complete LP)"

subsection \<open>The code that an instantiation produces\<close>

type_synonym ('e, 's) program = "'s \<Rightarrow> 'e + 's"

text \<open>The empty body \<^verbatim>\<open>{}\<close> of the disabled case, and two statements in sequence.\<close>

definition nop :: "('e, 's) program" where
  "nop s = Inr s"

definition seq :: "('e, 's) program \<Rightarrow> ('e, 's) program \<Rightarrow> ('e, 's) program" where
  "seq c d s = (case c s of Inl e \<Rightarrow> Inl e | Inr s' \<Rightarrow> d s')"

subsection \<open>\<^verbatim>\<open>ForLoop\<close> (lines 164 to 172)\<close>

text \<open>
  The first overload is enabled where the state is not valid and has an empty body. The
  second calls \<^verbatim>\<open>func(i, args...)\<close> with the current index and then the instance for
  \<^verbatim>\<open>LP::GetNext()\<close>, an expression that creates the object of the next state.
\<close>

partial_function (option) ForLoop ::
  "LoopParams \<Rightarrow> (int \<Rightarrow> 'x \<Rightarrow> ('e, 's) program) \<Rightarrow> 'x
     \<Rightarrow> (compile_error + ('e, 's) program) option" where
  "ForLoop LP func args =
     (if \<not> IsValid LP then Some (Inr nop)
      else case object (GetNext LP) of
          Inl err \<Rightarrow> Some (Inl err)
        | Inr LP' \<Rightarrow>
            Option.bind (ForLoop LP' func args) (\<lambda>r. case r of
                Inl err \<Rightarrow> Some (Inl err)
              | Inr rest \<Rightarrow> Some (Inr (seq (func (GetCurrIdx LP) args) rest))))"

declare ForLoop.simps [code]

subsection \<open>The specialised entry points (lines 211 to 253)\<close>

text \<open>
  \<^verbatim>\<open>ChangeVal\<close> is an optional template argument: \<open>None\<close> is the call that leaves
  it out, and each entry point has its own default.
\<close>

definition default_arg :: "'a \<Rightarrow> 'a option \<Rightarrow> 'a" where
  "default_arg d v = (case v of None \<Rightarrow> d | Some x \<Rightarrow> x)"

definition ForLoopLessThan ::
  "int \<Rightarrow> int \<Rightarrow> int option \<Rightarrow> (int \<Rightarrow> 'x \<Rightarrow> ('e, 's) program) \<Rightarrow> 'x
     \<Rightarrow> (compile_error + ('e, 's) program) option" where
  "ForLoopLessThan StartIdx' EndIdx' ChangeVal' func args =
     (case complete \<lparr>CurrIdx = StartIdx', EndIdx = EndIdx',
                      ChangeVal = default_arg 1 ChangeVal',
                      Comparator = std_less, Modifier = std_plus, StartIdx = StartIdx'\<rparr> of
        Inl err \<Rightarrow> Some (Inl err)
      | Inr LP \<Rightarrow> ForLoop LP func args)"

definition ForLoopLessThanEqualTo ::
  "int \<Rightarrow> int \<Rightarrow> int option \<Rightarrow> (int \<Rightarrow> 'x \<Rightarrow> ('e, 's) program) \<Rightarrow> 'x
     \<Rightarrow> (compile_error + ('e, 's) program) option" where
  "ForLoopLessThanEqualTo StartIdx' EndIdx' ChangeVal' func args =
     (case complete \<lparr>CurrIdx = StartIdx', EndIdx = EndIdx',
                      ChangeVal = default_arg 1 ChangeVal',
                      Comparator = std_less_equal, Modifier = std_plus, StartIdx = StartIdx'\<rparr> of
        Inl err \<Rightarrow> Some (Inl err)
      | Inr LP \<Rightarrow> ForLoop LP func args)"

definition ForLoopGreaterThan ::
  "int \<Rightarrow> int \<Rightarrow> int option \<Rightarrow> (int \<Rightarrow> 'x \<Rightarrow> ('e, 's) program) \<Rightarrow> 'x
     \<Rightarrow> (compile_error + ('e, 's) program) option" where
  "ForLoopGreaterThan StartIdx' EndIdx' ChangeVal' func args =
     (case complete \<lparr>CurrIdx = StartIdx', EndIdx = EndIdx',
                      ChangeVal = default_arg (- 1) ChangeVal',
                      Comparator = std_greater, Modifier = std_plus, StartIdx = StartIdx'\<rparr> of
        Inl err \<Rightarrow> Some (Inl err)
      | Inr LP \<Rightarrow> ForLoop LP func args)"

definition ForLoopGreaterThanEqualTo ::
  "int \<Rightarrow> int \<Rightarrow> int option \<Rightarrow> (int \<Rightarrow> 'x \<Rightarrow> ('e, 's) program) \<Rightarrow> 'x
     \<Rightarrow> (compile_error + ('e, 's) program) option" where
  "ForLoopGreaterThanEqualTo StartIdx' EndIdx' ChangeVal' func args =
     (case complete \<lparr>CurrIdx = StartIdx', EndIdx = EndIdx',
                      ChangeVal = default_arg (- 1) ChangeVal',
                      Comparator = std_greater_equal, Modifier = std_plus, StartIdx = StartIdx'\<rparr> of
        Inl err \<Rightarrow> Some (Inl err)
      | Inr LP \<Rightarrow> ForLoop LP func args)"

definition ForLoopEqualTo ::
  "int \<Rightarrow> int \<Rightarrow> int option \<Rightarrow> (int \<Rightarrow> 'x \<Rightarrow> ('e, 's) program) \<Rightarrow> 'x
     \<Rightarrow> (compile_error + ('e, 's) program) option" where
  "ForLoopEqualTo StartIdx' EndIdx' ChangeVal' func args =
     (case complete \<lparr>CurrIdx = StartIdx', EndIdx = EndIdx',
                      ChangeVal = default_arg 1 ChangeVal',
                      Comparator = std_equal_to, Modifier = std_plus, StartIdx = StartIdx'\<rparr> of
        Inl err \<Rightarrow> Some (Inl err)
      | Inr LP \<Rightarrow> ForLoop LP func args)"

subsection \<open>\<^verbatim>\<open>NestedForLoop_2\<close> (lines 294 to 304)\<close>

text \<open>
  Two overloads: one for an outer state that is not valid, with an empty body, and one
  for an outer and an inner state that are both valid. The second runs \<^verbatim>\<open>ForLoop\<close> on
  the inner state \<^verbatim>\<open>q\<close> as it was passed, with the outer index put in front of the extra
  arguments, and then the instance for \<^verbatim>\<open>LP_out::GetNext()\<close> and \<^verbatim>\<open>LP_in::Reset()\<close>.
  No overload is enabled for a valid outer state with an inner state that is not valid.
\<close>

partial_function (option) NestedForLoop_2 ::
  "LoopParams \<Rightarrow> LoopParams \<Rightarrow> (int \<Rightarrow> int \<Rightarrow> 'x \<Rightarrow> ('e, 's) program) \<Rightarrow> 'x
     \<Rightarrow> (compile_error + ('e, 's) program) option" where
  "NestedForLoop_2 p q func args =
     (if \<not> IsValid p then Some (Inr nop)
      else if IsValid p \<and> IsValid q then
        Option.bind (ForLoop q (\<lambda>i (j, a). func i j a) (GetCurrIdx p, args)) (\<lambda>r. case r of
            Inl err \<Rightarrow> Some (Inl err)
          | Inr inner \<Rightarrow>
             (case object (GetNext p) of
                Inl err \<Rightarrow> Some (Inl err)
              | Inr p' \<Rightarrow>
                 (case object (Inr (Reset q)) of
                    Inl err \<Rightarrow> Some (Inl err)
                  | Inr q' \<Rightarrow>
                      Option.bind (NestedForLoop_2 p' q' func args) (\<lambda>r'. case r' of
                          Inl err \<Rightarrow> Some (Inl err)
                        | Inr rest \<Rightarrow> Some (Inr (seq inner rest))))))
      else Some (Inl NoMatchingFunction))"

declare NestedForLoop_2.simps [code]

subsection \<open>Sequences of calls, runs of a loop\<close>

text \<open>
  The definitions from here on are not code of the header: they are the notions in
  which the properties are stated.
\<close>

text \<open>The calls \<^verbatim>\<open>func(i, args...)\<close> for the indices of a list, one after the other.\<close>

fun calls :: "(int \<Rightarrow> 'x \<Rightarrow> ('e, 's) program) \<Rightarrow> 'x \<Rightarrow> int list \<Rightarrow> ('e, 's) program" where
  "calls func args [] = nop"
| "calls func args (i # is) = seq (func i args) (calls func args is)"

text \<open>The calls \<^verbatim>\<open>func(i, j, args...)\<close> for a list of pairs (inner index, outer index).\<close>

fun calls_2 ::
  "(int \<Rightarrow> int \<Rightarrow> 'x \<Rightarrow> ('e, 's) program) \<Rightarrow> 'x \<Rightarrow> (int \<times> int) list \<Rightarrow> ('e, 's) program" where
  "calls_2 func args [] = nop"
| "calls_2 func args ((i, j) # ps) = seq (func i j args) (calls_2 func args ps)"

text \<open>
  The state that \<^verbatim>\<open>ForLoop\<close> reaches after \<open>n\<close> steps (each step the expression
  \<^verbatim>\<open>LP::GetNext()\<close> of line 171), and the indices of the first \<open>n\<close> states.
\<close>

fun iterate :: "nat \<Rightarrow> LoopParams \<Rightarrow> compile_error + LoopParams" where
  "iterate 0 LP = Inr LP"
| "iterate (Suc n) LP =
     (case object (GetNext LP) of Inl err \<Rightarrow> Inl err | Inr LP' \<Rightarrow> iterate n LP')"

fun visited :: "nat \<Rightarrow> LoopParams \<Rightarrow> int list" where
  "visited 0 LP = []"
| "visited (Suc n) LP =
     GetCurrIdx LP # (case object (GetNext LP) of Inl err \<Rightarrow> [] | Inr LP' \<Rightarrow> visited n LP')"

text \<open>
  The loop runs for exactly \<open>n\<close> indices: the first \<open>n\<close> states exist and are valid, the
  next one exists and is not valid.
\<close>

definition runs_for :: "nat \<Rightarrow> LoopParams \<Rightarrow> bool" where
  "runs_for n LP =
     ((\<forall>k\<in>{0..<n}. case iterate k LP of Inl err \<Rightarrow> False | Inr LP' \<Rightarrow> IsValid LP') \<and>
      (case iterate n LP of Inl err \<Rightarrow> False | Inr LP' \<Rightarrow> \<not> IsValid LP'))"

text \<open>\<^verbatim>\<open>GetNext\<close> applied \<open>n\<close> times.\<close>

fun advance :: "nat \<Rightarrow> LoopParams \<Rightarrow> compile_error + LoopParams" where
  "advance 0 LP = Inr LP"
| "advance (Suc n) LP =
     (case GetNext LP of Inl err \<Rightarrow> Inl err | Inr LP' \<Rightarrow> advance n LP')"

text \<open>The indices \<open>s, s + step, s + 2 step, ...\<close>, \<open>n\<close> of them.\<close>

definition arithmetic :: "int \<Rightarrow> int \<Rightarrow> nat \<Rightarrow> int list" where
  "arithmetic s step n = map (\<lambda>k. s + int k * step) [0..<n]"

text \<open>
  A callback that records its index, and one for the nested loop that records the pair
  of its indices; \<open>invocations\<close> runs the code that was produced, from an empty record.
\<close>

definition collect :: "int \<Rightarrow> unit \<Rightarrow> (unit, int list) program" where
  "collect i u tr = Inr (tr @ [i])"

definition collect_2 :: "int \<Rightarrow> int \<Rightarrow> unit \<Rightarrow> (unit, (int \<times> int) list) program" where
  "collect_2 i j u tr = Inr (tr @ [(i, j)])"

definition invocations ::
  "(compile_error + (unit, 'a list) program) option \<Rightarrow> (compile_error + unit + 'a list) option" where
  "invocations r = map_option (map_sum id (\<lambda>code. code [])) r"

text \<open>
  How many indices an ascending loop with a positive step visits: the number of
  \<open>k \<ge> 0\<close> with \<open>s + k step < e\<close>, and with \<open>s + k step \<le> e\<close>.
\<close>

definition count_lt :: "int \<Rightarrow> int \<Rightarrow> int \<Rightarrow> nat" where
  "count_lt s e step = nat ((e - s + step - 1) div step)"

definition count_le :: "int \<Rightarrow> int \<Rightarrow> int \<Rightarrow> nat" where
  "count_le s e step = nat ((e - s + step) div step)"

text \<open>The state of a specialised entry point at the index \<open>i\<close>.\<close>

definition additive :: "(int \<Rightarrow> int \<Rightarrow> bool) \<Rightarrow> int \<Rightarrow> int \<Rightarrow> int \<Rightarrow> int \<Rightarrow> LoopParams" where
  "additive cmp s0 e c i =
     \<lparr>CurrIdx = i, EndIdx = e, ChangeVal = c, Comparator = cmp, Modifier = std_plus,
      StartIdx = s0\<rparr>"

section \<open>Properties\<close>

lemmas unroll_eval =
  IsValid_def GetNext_def GetCurrIdx_def complete_def object_def Reset_def
  std_less_def std_less_equal_def std_greater_def std_greater_equal_def std_equal_to_def
  std_plus_def std_multiplies_def representable_def INT_MAX_def INT_MIN_def default_arg_def

lemma ForLoop_not_valid: "\<not> IsValid LP \<Longrightarrow> ForLoop LP func args = Some (Inr nop)"
  by (subst ForLoop.simps) simp

text \<open>
  C9. A state whose current index fails the predicate at entry: \<^verbatim>\<open>ForLoop\<close> compiles,
  to code that calls the callback for no index and returns every state as it was.
\<close>

theorem ForLoop_zero_iterations:
  "\<not> IsValid LP \<Longrightarrow>
     ForLoop LP func args = Some (Inr (calls func args [])) \<and>
     (\<forall>code s. ForLoop LP func args = Some (Inr code) \<longrightarrow> code s = Inr s)"
  by (simp add: ForLoop_not_valid nop_def)

theorem ForLoop_zero_iterations_witness:
  "\<not> IsValid \<lparr>CurrIdx = 5, EndIdx = 5, ChangeVal = 1, Comparator = std_less,
               Modifier = std_plus, StartIdx = 5\<rparr> \<and>
   ForLoop \<lparr>CurrIdx = 5, EndIdx = 5, ChangeVal = 1, Comparator = std_less,
             Modifier = std_plus, StartIdx = 5\<rparr> collect () = Some (Inr (calls collect () []))"
proof -
  have nv: "\<not> IsValid \<lparr>CurrIdx = 5, EndIdx = 5, ChangeVal = 1, Comparator = std_less,
               Modifier = std_plus, StartIdx = 5\<rparr>"
    by (simp add: IsValid_def std_less_def)
  show ?thesis
    using nv ForLoop_zero_iterations [OF nv, of collect "()"] by blast
qed

subsection \<open>The indices that \<^verbatim>\<open>ForLoop\<close> visits\<close>

lemma ball_upt_Suc: "(\<forall>k\<in>{0..<Suc n}. Q k) = (Q 0 \<and> (\<forall>k\<in>{0..<n}. Q (Suc k)))"
  by (auto simp add: less_Suc_eq_0_disj)

lemma runs_for_0: "runs_for 0 LP = (\<not> IsValid LP)"
  by (simp add: runs_for_def)

lemma runs_for_Suc:
  "runs_for (Suc n) LP =
     (IsValid LP \<and> (case object (GetNext LP) of Inl err \<Rightarrow> False | Inr LP' \<Rightarrow> runs_for n LP'))"
proof (cases "object (GetNext LP)")
  case (Inl err)
  then show ?thesis by (simp add: runs_for_def)
next
  case (Inr LP')
  then show ?thesis by (simp add: runs_for_def ball_upt_Suc)
qed

lemma ForLoop_runs_for:
  "runs_for n LP \<Longrightarrow> ForLoop LP func args = Some (Inr (calls func args (visited n LP)))"
proof (induction n arbitrary: LP)
  case 0
  then show ?case by (simp add: runs_for_0 ForLoop_not_valid)
next
  case (Suc n)
  from Suc.prems obtain LP' where v: "IsValid LP" and o: "object (GetNext LP) = Inr LP'"
    and r: "runs_for n LP'"
    by (auto simp add: runs_for_Suc split: sum.splits)
  have "ForLoop LP' func args = Some (Inr (calls func args (visited n LP')))"
    by (rule Suc.IH [OF r])
  then show ?case using v o by (subst ForLoop.simps) simp
qed






subsection \<open>Ascending loops of the specialised entry points\<close>

lemma count_lt_stop: "0 < c \<Longrightarrow> \<not> s < e \<Longrightarrow> count_lt s e c = 0"
proof -
  assume c: "0 < c" and "\<not> s < e"
  then have "e - s + c - 1 < c" by simp
  then have "(e - s + c - 1) div c \<le> (c - 1) div c" by (intro zdiv_mono1) (use c in auto)
  also have "(c - 1) div c = 0" using c by (simp add: div_pos_pos_trivial)
  finally show ?thesis by (simp add: count_lt_def)
qed

lemma count_lt_step: "0 < c \<Longrightarrow> s < e \<Longrightarrow> count_lt s e c = Suc (count_lt (s + c) e c)"
proof -
  assume c: "0 < c" and "s < e"
  have "(e - s + c - 1) div c = (e - (s + c) + c - 1 + c) div c" by (simp add: algebra_simps)
  also have "\<dots> = (e - (s + c) + c - 1) div c + 1" using c by simp
  finally have eq: "(e - s + c - 1) div c = (e - (s + c) + c - 1) div c + 1" .
  have "0 \<le> (e - (s + c) + c - 1) div c"
    using c \<open>s < e\<close> by (intro pos_imp_zdiv_nonneg_iff [THEN iffD2]) auto
  then show ?thesis by (simp add: count_lt_def eq nat_add_distrib)
qed

lemma count_le_stop: "0 < c \<Longrightarrow> \<not> s \<le> e \<Longrightarrow> count_le s e c = 0"
proof -
  assume c: "0 < c" and "\<not> s \<le> e"
  then have "e - s + c \<le> c - 1" by simp
  then have "(e - s + c) div c \<le> (c - 1) div c" by (intro zdiv_mono1) (use c in auto)
  also have "(c - 1) div c = 0" using c by (simp add: div_pos_pos_trivial)
  finally show ?thesis by (simp add: count_le_def)
qed

lemma count_le_step: "0 < c \<Longrightarrow> s \<le> e \<Longrightarrow> count_le s e c = Suc (count_le (s + c) e c)"
proof -
  assume c: "0 < c" and "s \<le> e"
  have "(e - s + c) div c = (e - (s + c) + c + c) div c" by (simp add: algebra_simps)
  also have "\<dots> = (e - (s + c) + c) div c + 1" using c by simp
  finally have eq: "(e - s + c) div c = (e - (s + c) + c) div c + 1" .
  have "0 \<le> (e - (s + c) + c) div c"
    using c \<open>s \<le> e\<close> by (intro pos_imp_zdiv_nonneg_iff [THEN iffD2]) auto
  then show ?thesis by (simp add: count_le_def eq nat_add_distrib)
qed

lemma count_lt_iff: "0 < c \<Longrightarrow> (k < count_lt s e c) = (s + int k * c < e)"
proof (induction k arbitrary: s)
  case 0
  then show ?case by (cases "s < e") (simp_all add: count_lt_stop count_lt_step)
next
  case (Suc k)
  show ?case
  proof (cases "s < e")
    case True
    then show ?thesis using Suc.IH [OF Suc.prems, of "s + c"] Suc.prems
      by (simp add: count_lt_step algebra_simps)
  next
    case False
    have "0 \<le> int k * c" using Suc.prems by simp
    moreover have "s + int (Suc k) * c = s + int k * c + c" by (simp add: algebra_simps)
    ultimately have "\<not> s + int (Suc k) * c < e" using False Suc.prems by linarith
    moreover have "count_lt s e c = 0" using False Suc.prems by (simp add: count_lt_stop)
    ultimately show ?thesis by simp
  qed
qed

lemma count_le_iff: "0 < c \<Longrightarrow> (k < count_le s e c) = (s + int k * c \<le> e)"
proof (induction k arbitrary: s)
  case 0
  then show ?case by (cases "s \<le> e") (simp_all add: count_le_stop count_le_step)
next
  case (Suc k)
  show ?case
  proof (cases "s \<le> e")
    case True
    then show ?thesis using Suc.IH [OF Suc.prems, of "s + c"] Suc.prems
      by (simp add: count_le_step algebra_simps)
  next
    case False
    have "0 \<le> int k * c" using Suc.prems by simp
    moreover have "s + int (Suc k) * c = s + int k * c + c" by (simp add: algebra_simps)
    ultimately have "\<not> s + int (Suc k) * c \<le> e" using False Suc.prems by linarith
    moreover have "count_le s e c = 0" using False Suc.prems by (simp add: count_le_stop)
    ultimately show ?thesis by simp
  qed
qed

lemma ceil_div:
  fixes a c :: int
  assumes "0 < c"
  shows "(a + c - 1) div c = - (- a div c)"
proof -
  define q where "q = (- a) div c"
  define r where "r = (- a) mod c"
  have r: "0 \<le> r" "r < c" using assms by (simp_all add: r_def)
  have "- a = q * c + r" by (simp add: q_def r_def)
  then have "a + c - 1 = (c - 1 - r) + (- q) * c" by (simp add: algebra_simps)
  then have "(a + c - 1) div c = ((c - 1 - r) + (- q) * c) div c"
    by (rule arg_cong [of _ _ "\<lambda>x. x div c"])
  also have "\<dots> = (- q) + (c - 1 - r) div c" using assms by (simp only: div_mult_self1)
  also have "(c - 1 - r) div c = 0" using r by (intro div_pos_pos_trivial) auto
  finally show ?thesis by (simp add: q_def)
qed

lemma count_lt_ceiling:
  assumes "0 < c"
  shows "int (count_lt s e c) = max 0 \<lceil>real_of_int (e - s) / real_of_int c\<rceil>"
proof -
  have "\<lceil>real_of_int (e - s) / real_of_int c\<rceil> = (e - s + c - 1) div c"
    using ceil_div [OF assms, of "e - s"] by (simp only: ceiling_divide_eq_div)
  then show ?thesis by (simp add: count_lt_def max_def)
qed

lemma IsValid_additive: "IsValid (additive cmp s0 e c i) = cmp i e"
  by (simp add: IsValid_def additive_def)

lemma GetCurrIdx_additive: "GetCurrIdx (additive cmp s0 e c i) = i"
  by (simp add: GetCurrIdx_def additive_def)

lemma complete_additive:
  "complete (additive cmp s0 e c i) =
     (if representable (i + c) then Inr (additive cmp s0 e c i) else Inl NotConstantExpression)"
  by (simp add: complete_def GetNext_def additive_def std_plus_def)

lemma object_additive:
  "object (GetNext (additive cmp s0 e c i)) =
     (if representable (i + c) \<and> representable (i + c + c)
      then Inr (additive cmp s0 e c (i + c)) else Inl NotConstantExpression)"
  by (simp add: object_def complete_def GetNext_def additive_def std_plus_def)

lemma arithmetic_0: "arithmetic i c 0 = []"
  by (simp add: arithmetic_def)

lemma arithmetic_Suc: "arithmetic i c (Suc n) = i # arithmetic (i + c) c n"
proof -
  have "[0..<Suc n] = 0 # map Suc [0..<n]"
    by (simp add: upt_conv_Cons map_Suc_upt del: upt_Suc)
  then show ?thesis
    by (simp add: arithmetic_def algebra_simps del: upt_Suc)
qed

lemma runs_for_additive:
  assumes "\<forall>k<n. cmp (i + int k * c) e" and "\<not> cmp (i + int n * c) e"
    and "\<forall>k\<in>{1..Suc n}. representable (i + int k * c)"
  shows "runs_for n (additive cmp s0 e c i) \<and> visited n (additive cmp s0 e c i) = arithmetic i c n"
  using assms
proof (induction n arbitrary: i)
  case 0
  then show ?case by (simp add: runs_for_0 IsValid_additive arithmetic_0)
next
  case (Suc n)
  have v: "cmp i e" using Suc.prems(1) by auto
  have "1 \<in> {1..Suc (Suc n)}" and "2 \<in> {1..Suc (Suc n)}" by auto
  then have "representable (i + int 1 * c)" and "representable (i + int 2 * c)"
    using Suc.prems(3) by blast+
  then have "representable (i + c)" and "representable (i + c + c)"
    by (simp_all add: algebra_simps)
  then have o: "object (GetNext (additive cmp s0 e c i)) = Inr (additive cmp s0 e c (i + c))"
    by (simp only: object_additive) simp
  have a: "\<forall>k<n. cmp (i + c + int k * c) e"
  proof (intro allI impI)
    fix k assume "k < n"
    then have "cmp (i + int (Suc k) * c) e" using Suc.prems(1) by auto
    then show "cmp (i + c + int k * c) e" by (simp add: algebra_simps)
  qed
  have b: "\<not> cmp (i + c + int n * c) e"
    using Suc.prems(2) by (simp add: algebra_simps)
  have c: "\<forall>k\<in>{1..Suc n}. representable (i + c + int k * c)"
  proof
    fix k assume "k \<in> {1..Suc n}"
    then have "Suc k \<in> {1..Suc (Suc n)}" by auto
    then have "representable (i + int (Suc k) * c)" using Suc.prems(3) by blast
    then show "representable (i + c + int k * c)" by (simp add: algebra_simps)
  qed
  from Suc.IH [OF a b c] show ?case
    using v o by (simp add: runs_for_Suc IsValid_additive GetCurrIdx_additive arithmetic_Suc)
qed

lemma representable_range:
  assumes "0 < c" "representable s" "representable (s + (int n + 1) * c)"
  shows "\<forall>k\<in>{1..Suc n}. representable (s + int k * c)"
proof
  fix k assume k: "k \<in> {1..Suc n}"
  have "0 \<le> int k * c" using assms(1) by simp
  moreover have "int k * c \<le> (int n + 1) * c"
    using k assms(1) by (intro mult_right_mono) auto
  ultimately show "representable (s + int k * c)"
    using assms(2,3) by (simp add: representable_def)
qed

lemma ForLoopLessThan_additive:
  "ForLoopLessThan s e (Some c) func args =
     (case complete (additive std_less s e c s) of Inl err \<Rightarrow> Some (Inl err)
      | Inr LP \<Rightarrow> ForLoop LP func args)"
  by (simp add: ForLoopLessThan_def additive_def default_arg_def)

lemma ForLoopLessThanEqualTo_additive:
  "ForLoopLessThanEqualTo s e (Some c) func args =
     (case complete (additive std_less_equal s e c s) of Inl err \<Rightarrow> Some (Inl err)
      | Inr LP \<Rightarrow> ForLoop LP func args)"
  by (simp add: ForLoopLessThanEqualTo_def additive_def default_arg_def)

lemma ForLoopLessThan_ascending:
  assumes "0 < c" "representable s" "representable (s + (int (count_lt s e c) + 1) * c)"
  shows "ForLoopLessThan s e (Some c) func args =
           Some (Inr (calls func args (arithmetic s c (count_lt s e c))))"
proof -
  let ?n = "count_lt s e c"
  have r: "\<forall>k\<in>{1..Suc ?n}. representable (s + int k * c)"
    by (rule representable_range [OF assms])
  have a: "\<forall>k<?n. std_less (s + int k * c) e"
    using assms(1) by (simp add: std_less_def count_lt_iff)
  have b: "\<not> std_less (s + int ?n * c) e"
    using count_lt_iff [OF assms(1), of ?n s e] by (simp add: std_less_def)
  have "representable (s + c)" using r by force
  then have "complete (additive std_less s e c s) = Inr (additive std_less s e c s)"
    by (simp add: complete_additive)
  then show ?thesis
    using runs_for_additive [where cmp = std_less and i = s and n = ?n and c = c and e = e and ?s0.0 = s, OF a b r]
      ForLoop_runs_for [of ?n "additive std_less s e c s" func args]
    by (simp add: ForLoopLessThan_additive)
qed

lemma ForLoopLessThanEqualTo_ascending:
  assumes "0 < c" "representable s" "representable (s + (int (count_le s e c) + 1) * c)"
  shows "ForLoopLessThanEqualTo s e (Some c) func args =
           Some (Inr (calls func args (arithmetic s c (count_le s e c))))"
proof -
  let ?n = "count_le s e c"
  have r: "\<forall>k\<in>{1..Suc ?n}. representable (s + int k * c)"
    by (rule representable_range [OF assms])
  have a: "\<forall>k<?n. std_less_equal (s + int k * c) e"
    using assms(1) by (simp add: std_less_equal_def count_le_iff)
  have b: "\<not> std_less_equal (s + int ?n * c) e"
    using count_le_iff [OF assms(1), of ?n s e] by (simp add: std_less_equal_def)
  have "representable (s + c)" using r by force
  then have "complete (additive std_less_equal s e c s) = Inr (additive std_less_equal s e c s)"
    by (simp add: complete_additive)
  then show ?thesis
    using runs_for_additive [where cmp = std_less_equal and i = s and n = ?n and c = c and e = e and ?s0.0 = s, OF a b r]
      ForLoop_runs_for [of ?n "additive std_less_equal s e c s" func args]
    by (simp add: ForLoopLessThanEqualTo_additive)
qed

lemma ForLoop_additive_less_total:
  assumes "0 < c"
  shows "ForLoop (additive std_less s0 e c i) func args =
           Some (Inr (calls func args (arithmetic i c (count_lt i e c)))) \<or>
         ForLoop (additive std_less s0 e c i) func args = Some (Inl NotConstantExpression)"
proof (induction "count_lt i e c" arbitrary: i)
  case 0
  then have "\<not> i < e" using count_lt_iff [OF assms, of 0 i e] by simp
  then have "ForLoop (additive std_less s0 e c i) func args = Some (Inr nop)"
    by (intro ForLoop_not_valid) (simp add: IsValid_additive std_less_def)
  then show ?case using 0 [symmetric] by (simp add: arithmetic_0)
next
  case (Suc n)
  then have lt: "i < e" using count_lt_iff [OF assms, of 0 i e] by simp
  then have v: "IsValid (additive std_less s0 e c i)"
    by (simp add: IsValid_additive std_less_def)
  have n: "n = count_lt (i + c) e c"
    using Suc(2) count_lt_step [OF assms lt] by simp
  show ?case
  proof (cases "representable (i + c) \<and> representable (i + c + c)")
    case False
    then have "object (GetNext (additive std_less s0 e c i)) = Inl NotConstantExpression"
      by (simp add: object_additive)
    then have "ForLoop (additive std_less s0 e c i) func args = Some (Inl NotConstantExpression)"
      using v by (subst ForLoop.simps) simp
    then show ?thesis by simp
  next
    case True
    then have o: "object (GetNext (additive std_less s0 e c i)) = Inr (additive std_less s0 e c (i + c))"
      by (simp add: object_additive)
    from Suc(1) [OF n] show ?thesis
    proof
      assume "ForLoop (additive std_less s0 e c (i + c)) func args =
                Some (Inr (calls func args (arithmetic (i + c) c (count_lt (i + c) e c))))"
      then have "ForLoop (additive std_less s0 e c i) func args =
          Some (Inr (calls func args (arithmetic i c (count_lt i e c))))"
        using v o by (subst ForLoop.simps)
          (simp add: count_lt_step [OF assms lt] arithmetic_Suc GetCurrIdx_additive)
      then show ?thesis by simp
    next
      assume "ForLoop (additive std_less s0 e c (i + c)) func args = Some (Inl NotConstantExpression)"
      then have "ForLoop (additive std_less s0 e c i) func args = Some (Inl NotConstantExpression)"
        using v o by (subst ForLoop.simps) simp
      then show ?thesis by simp
    qed
  qed
qed

lemma ForLoopLessThan_total:
  assumes "0 < c"
  shows "ForLoopLessThan s e (Some c) func args =
           Some (Inr (calls func args (arithmetic s c (count_lt s e c)))) \<or>
         ForLoopLessThan s e (Some c) func args = Some (Inl NotConstantExpression)"
  using ForLoop_additive_less_total [OF assms, of s e s func args]
  by (simp add: ForLoopLessThan_additive complete_additive)

lemma sorted_arithmetic: "0 < c \<Longrightarrow> sorted_wrt (<) (arithmetic s c n)"
proof -
  assume c: "0 < c"
  have "sorted_wrt (\<lambda>j k. s + int j * c < s + int k * c) [0..<n]"
    by (rule sorted_wrt_mono_rel [of _ "(<)"]) (use c in simp_all)
  then show ?thesis by (simp add: arithmetic_def sorted_wrt_map)
qed

lemma set_arithmetic_lt: "0 < c \<Longrightarrow> \<forall>i\<in>set (arithmetic s c (count_lt s e c)). i < e"
  by (auto simp add: arithmetic_def count_lt_iff)

lemma set_arithmetic_le: "0 < c \<Longrightarrow> \<forall>i\<in>set (arithmetic s c (count_le s e c)). i \<le> e"
  by (auto simp add: arithmetic_def count_le_iff)

lemma length_arithmetic: "length (arithmetic s c n) = n"
  by (simp add: arithmetic_def)

text \<open>
  C3, with the bound that the type \<^verbatim>\<open>int\<close> puts on the indices. For every start \<open>s\<close>
  that is an \<^verbatim>\<open>int\<close>, every end \<open>e\<close> and every positive step: if the index one step
  past the first index that fails the predicate is still an \<^verbatim>\<open>int\<close>, then
  \<^verbatim>\<open>ForLoopLessThan\<close> calls the callback exactly for \<open>s, s + step, s + 2 step, ...\<close>
  while the index is \<open>< e\<close> (\<^verbatim>\<open>ForLoopLessThanEqualTo\<close>: while it is \<open>\<le> e\<close>), in
  strictly increasing order, every index \<open>< e\<close> (\<open>\<le> e\<close>). From 1 to 10 with step 1
  and less-than these are the 9 indices 1 to 9.
\<close>

theorem ascending_enumeration:
  "(0 < step \<and> representable s \<and> representable (s + (int (count_lt s e step) + 1) * step) \<longrightarrow>
      ForLoopLessThan s e (Some step) func args =
        Some (Inr (calls func args (arithmetic s step (count_lt s e step)))) \<and>
      (\<forall>k. (k < count_lt s e step) = (s + int k * step < e)) \<and>
      sorted_wrt (<) (arithmetic s step (count_lt s e step)) \<and>
      (\<forall>i\<in>set (arithmetic s step (count_lt s e step)). i < e)) \<and>
   (0 < step \<and> representable s \<and> representable (s + (int (count_le s e step) + 1) * step) \<longrightarrow>
      ForLoopLessThanEqualTo s e (Some step) func args =
        Some (Inr (calls func args (arithmetic s step (count_le s e step)))) \<and>
      (\<forall>k. (k < count_le s e step) = (s + int k * step \<le> e)) \<and>
      sorted_wrt (<) (arithmetic s step (count_le s e step)) \<and>
      (\<forall>i\<in>set (arithmetic s step (count_le s e step)). i \<le> e)) \<and>
   ForLoopLessThan 1 10 (Some 1) func args = Some (Inr (calls func args [1, 2, 3, 4, 5, 6, 7, 8, 9])) \<and>
   ForLoopLessThan 1 10 None func args = Some (Inr (calls func args [1, 2, 3, 4, 5, 6, 7, 8, 9])) \<and>
   length [1, 2, 3, 4, 5, 6, 7, 8, 9 :: int] = 9"
proof (intro conjI impI allI; (elim conjE)?)
  show "ForLoopLessThan 1 10 (Some 1) func args = Some (Inr (calls func args [1, 2, 3, 4, 5, 6, 7, 8, 9]))"
    by (simp add: ForLoopLessThan_def ForLoop.simps unroll_eval)
  show "ForLoopLessThan 1 10 None func args = Some (Inr (calls func args [1, 2, 3, 4, 5, 6, 7, 8, 9]))"
    by (simp add: ForLoopLessThan_def ForLoop.simps unroll_eval)
qed (simp_all add: ForLoopLessThan_ascending ForLoopLessThanEqualTo_ascending count_lt_iff
      count_le_iff sorted_arithmetic set_arithmetic_lt set_arithmetic_le)

theorem ascending_enumeration_witness:
  "(0::int) < 3 \<and> representable 0 \<and> representable (0 + (int (count_lt 0 10 3) + 1) * 3) \<and>
   ForLoopLessThan 0 10 (Some 3) collect () = Some (Inr (calls collect () [0, 3, 6, 9])) \<and>
   representable (0 + (int (count_le 0 9 3) + 1) * 3) \<and>
   ForLoopLessThanEqualTo 0 9 (Some 3) collect () = Some (Inr (calls collect () [0, 3, 6, 9]))"
proof -
  have n: "count_lt 0 10 3 = 4" "count_le 0 9 3 = 4"
    by (simp_all add: count_lt_def count_le_def)
  have a: "arithmetic 0 3 4 = [0, 3, 6, 9]" by code_simp
  have h: "(0::int) < 3" "representable 0" "representable (0 + (int (count_lt 0 10 3) + 1) * 3)"
    "representable (0 + (int (count_le 0 9 3) + 1) * 3)"
    by (simp_all add: n representable_def INT_MIN_def INT_MAX_def)
  from h ascending_enumeration [of 3 0 10 collect "()"]
  have "ForLoopLessThan 0 10 (Some 3) collect () =
          Some (Inr (calls collect () (arithmetic 0 3 (count_lt 0 10 3))))"
    by blast
  then have lt: "ForLoopLessThan 0 10 (Some 3) collect () = Some (Inr (calls collect () [0, 3, 6, 9]))"
    by (simp only: n a)
  from h ascending_enumeration [of 3 0 9 collect "()"]
  have "ForLoopLessThanEqualTo 0 9 (Some 3) collect () =
          Some (Inr (calls collect () (arithmetic 0 3 (count_le 0 9 3))))"
    by blast
  then have le: "ForLoopLessThanEqualTo 0 9 (Some 3) collect () = Some (Inr (calls collect () [0, 3, 6, 9]))"
    by (simp only: n a)
  show ?thesis using h lt le by blast
qed

text \<open>
  The claim without the bound fails: from 2147483646 to 2147483647 with step 2 the next
  index, 2147483648, is no \<^verbatim>\<open>int\<close>, the template argument of line 48 is no constant
  expression and the call is rejected, where the claim has one call of the callback, for
  2147483646.
\<close>

theorem ascending_enumeration_counterexample:
  "(2147483646::int) \<le> 2147483647 \<and> (0::int) < 2 \<and>
   representable 2147483646 \<and> representable 2147483647 \<and> representable 2 \<and>
   ForLoopLessThan 2147483646 2147483647 (Some 2) collect () = Some (Inl NotConstantExpression) \<and>
   ForLoopLessThan 2147483646 2147483647 (Some 2) collect () \<noteq>
     Some (Inr (calls collect () [2147483646]))"
  by (simp add: ForLoopLessThan_def ForLoop.simps unroll_eval)

text \<open>
  C10. For every start, every end and every positive change value, the instantiation of
  \<^verbatim>\<open>ForLoopLessThan\<close> comes to an end: it is rejected for an overflow, and then no
  callback runs, or it produces the calls for \<open>count_lt s e c\<close> indices, and this number
  is at most \<open>max(0, ceil((e - s) / c))\<close>.
\<close>

theorem ForLoopLessThan_terminates:
  "0 < c \<Longrightarrow>
     (ForLoopLessThan s e (Some c) func args =
        Some (Inr (calls func args (arithmetic s c (count_lt s e c)))) \<or>
      ForLoopLessThan s e (Some c) func args = Some (Inl NotConstantExpression)) \<and>
     int (length (arithmetic s c (count_lt s e c))) \<le> max 0 \<lceil>real_of_int (e - s) / real_of_int c\<rceil>"
  using ForLoopLessThan_total [of c s e func args] count_lt_ceiling [of c s e]
  by (simp only: length_arithmetic) simp

theorem ForLoopLessThan_terminates_witness:
  "(0::int) < 3 \<and> ForLoopLessThan 0 10 (Some 3) collect () = Some (Inr (calls collect () [0, 3, 6, 9])) \<and>
   int (length [0, 3, 6, 9 :: int]) \<le> max 0 \<lceil>real_of_int (10 - 0) / real_of_int 3\<rceil>"
proof -
  have n: "count_lt 0 10 3 = 4" by (simp add: count_lt_def)
  have a: "arithmetic 0 3 4 = [0, 3, 6, 9]" by code_simp
  have ok: "ForLoopLessThan 0 10 (Some 3) collect () \<noteq> Some (Inl NotConstantExpression)"
    by (simp add: ForLoopLessThan_def ForLoop.simps unroll_eval)
  have h: "(0::int) < 3" by simp
  show ?thesis
    using ok ForLoopLessThan_terminates [OF h, of 0 10 collect "()"]
    by (simp only: n a) simp
qed

subsection \<open>Start index equal to end index\<close>

lemma ForLoopLessThan_same:
  assumes "representable (s + default_arg 1 c)"
  shows "ForLoopLessThan s s c func args = Some (Inr (calls func args []))"
proof -
  let ?LP = "\<lparr>CurrIdx = s, EndIdx = s, ChangeVal = default_arg 1 c, Comparator = std_less,
               Modifier = std_plus, StartIdx = s\<rparr>"
  have "complete ?LP = Inr ?LP"
    using assms by (simp add: complete_def GetNext_def std_plus_def)
  moreover have "\<not> IsValid ?LP" by (simp add: IsValid_def std_less_def)
  ultimately show ?thesis
    by (simp add: ForLoopLessThan_def ForLoop_not_valid)
qed

lemma ForLoopGreaterThan_same:
  assumes "representable (s + default_arg (- 1) c)"
  shows "ForLoopGreaterThan s s c func args = Some (Inr (calls func args []))"
proof -
  let ?LP = "\<lparr>CurrIdx = s, EndIdx = s, ChangeVal = default_arg (- 1) c, Comparator = std_greater,
               Modifier = std_plus, StartIdx = s\<rparr>"
  have "complete ?LP = Inr ?LP"
    using assms by (simp add: complete_def GetNext_def std_plus_def)
  moreover have "\<not> IsValid ?LP" by (simp add: IsValid_def std_greater_def)
  ultimately show ?thesis
    by (simp add: ForLoopGreaterThan_def ForLoop_not_valid)
qed

lemma ForLoopEqualTo_same:
  assumes "default_arg 1 c \<noteq> 0" "representable (s + default_arg 1 c)"
    "representable (s + default_arg 1 c + default_arg 1 c)"
  shows "ForLoopEqualTo s s c func args = Some (Inr (calls func args [s]))"
proof -
  define d where "d = default_arg 1 c"
  have LP: "\<lparr>CurrIdx = s, EndIdx = s, ChangeVal = d, Comparator = std_equal_to,
               Modifier = std_plus, StartIdx = s\<rparr> = additive std_equal_to s s d s"
    by (simp add: additive_def)
  have c: "complete (additive std_equal_to s s d s) = Inr (additive std_equal_to s s d s)"
    using assms(2) by (simp add: complete_additive d_def)
  have "runs_for (Suc 0) (additive std_equal_to s s d s)"
    using assms by (simp add: runs_for_Suc runs_for_0 IsValid_additive object_additive
        std_equal_to_def d_def)
  then have "ForLoop (additive std_equal_to s s d s) func args =
      Some (Inr (calls func args (visited (Suc 0) (additive std_equal_to s s d s))))"
    by (rule ForLoop_runs_for)
  moreover have "visited (Suc 0) (additive std_equal_to s s d s) = [s]"
    using assms by (simp add: GetCurrIdx_additive object_additive d_def)
  ultimately show ?thesis
    using c by (simp add: ForLoopEqualTo_def LP d_def [symmetric])
qed

text \<open>
  C5, with the bound that the type \<^verbatim>\<open>int\<close> puts on the indices. Start and end are the
  same index \<open>s\<close>, the change value is the one passed or the default of the entry point.
  If \<open>s\<close> plus the change value is an \<^verbatim>\<open>int\<close>, \<^verbatim>\<open>ForLoopLessThan\<close> and
  \<^verbatim>\<open>ForLoopGreaterThan\<close> call the callback for no index. If the change value is not 0
  and \<open>s\<close> plus once and plus twice the change value are \<^verbatim>\<open>int\<close>s,
  \<^verbatim>\<open>ForLoopEqualTo\<close> calls the callback exactly once, for \<open>s\<close>.
\<close>

theorem start_equals_end:
  "(representable (s + default_arg 1 c) \<longrightarrow>
      ForLoopLessThan s s c func args = Some (Inr (calls func args []))) \<and>
   (representable (s + default_arg (- 1) c) \<longrightarrow>
      ForLoopGreaterThan s s c func args = Some (Inr (calls func args []))) \<and>
   (default_arg 1 c \<noteq> 0 \<and> representable (s + default_arg 1 c) \<and>
    representable (s + default_arg 1 c + default_arg 1 c) \<longrightarrow>
      ForLoopEqualTo s s c func args = Some (Inr (calls func args [s])))"
  using ForLoopLessThan_same [of s c func args] ForLoopGreaterThan_same [of s c func args]
    ForLoopEqualTo_same [of c s func args]
  by blast

theorem start_equals_end_witness:
  "representable (7 + default_arg 1 None) \<and>
   ForLoopLessThan 7 7 None collect () = Some (Inr (calls collect () [])) \<and>
   representable (7 + default_arg (- 1) None) \<and>
   ForLoopGreaterThan 7 7 None collect () = Some (Inr (calls collect () [])) \<and>
   default_arg 1 None \<noteq> (0::int) \<and> representable (7 + default_arg 1 None + default_arg 1 None) \<and>
   ForLoopEqualTo 7 7 None collect () = Some (Inr (calls collect () [7]))"
proof -
  have h: "representable (7 + default_arg 1 None)" "representable (7 + default_arg (- 1) None)"
    "default_arg 1 None \<noteq> (0::int)"
    "representable (7 + default_arg 1 None + default_arg 1 None)"
    by (simp_all add: representable_def INT_MIN_def INT_MAX_def default_arg_def)
  show ?thesis
    using h start_equals_end [of 7 None collect "()"] by blast
qed

text \<open>
  The claim without the bound fails for the equal-to entry point at the largest
  \<^verbatim>\<open>int\<close>: the next index, 2147483648, is no \<^verbatim>\<open>int\<close> and the call is rejected,
  where the claim has one call of the callback.
\<close>

theorem start_equals_end_counterexample:
  "representable 2147483647 \<and>
   ForLoopEqualTo 2147483647 2147483647 None collect () = Some (Inl NotConstantExpression) \<and>
   ForLoopEqualTo 2147483647 2147483647 None collect () \<noteq>
     Some (Inr (calls collect () [2147483647]))"
  by (simp add: ForLoopEqualTo_def ForLoop.simps unroll_eval)

subsection \<open>Defaults and the examples of the header\<close>

text \<open>
  C7. The change value defaults to \<open>- 1\<close> for the greater-than and the
  greater-than-or-equal entry points and to \<open>1\<close> for the others, and the descending loop
  from 10 to 1 with greater-than calls the callback for 10, 9, ..., 2: 9 calls.
\<close>

theorem descending_defaults:
  "ForLoopGreaterThan s e None func args = ForLoopGreaterThan s e (Some (- 1)) func args \<and>
   ForLoopGreaterThanEqualTo s e None func args =
     ForLoopGreaterThanEqualTo s e (Some (- 1)) func args \<and>
   ForLoopLessThan s e None func args = ForLoopLessThan s e (Some 1) func args \<and>
   ForLoopLessThanEqualTo s e None func args = ForLoopLessThanEqualTo s e (Some 1) func args \<and>
   ForLoopEqualTo s e None func args = ForLoopEqualTo s e (Some 1) func args \<and>
   ForLoopGreaterThan 10 1 (Some (- 1)) func args =
     Some (Inr (calls func args [10, 9, 8, 7, 6, 5, 4, 3, 2])) \<and>
   ForLoopGreaterThan 10 1 None func args =
     Some (Inr (calls func args [10, 9, 8, 7, 6, 5, 4, 3, 2])) \<and>
   invocations (ForLoopGreaterThan 10 1 None collect ()) =
     Some (Inr (Inr [10, 9, 8, 7, 6, 5, 4, 3, 2])) \<and>
   length [10, 9, 8, 7, 6, 5, 4, 3, 2 :: int] = 9"
proof (intro conjI)
  show "ForLoopGreaterThan 10 1 (Some (- 1)) func args =
          Some (Inr (calls func args [10, 9, 8, 7, 6, 5, 4, 3, 2]))"
    by (simp add: ForLoopGreaterThan_def ForLoop.simps unroll_eval)
  show "ForLoopGreaterThan 10 1 None func args =
          Some (Inr (calls func args [10, 9, 8, 7, 6, 5, 4, 3, 2]))"
    by (simp add: ForLoopGreaterThan_def ForLoop.simps unroll_eval)
  show "invocations (ForLoopGreaterThan 10 1 None collect ()) =
          Some (Inr (Inr [10, 9, 8, 7, 6, 5, 4, 3, 2]))"
    by (simp add: ForLoopGreaterThan_def ForLoop.simps unroll_eval invocations_def
        seq_def nop_def collect_def)
qed (simp_all add: ForLoopGreaterThan_def ForLoopGreaterThanEqualTo_def ForLoopLessThan_def
      ForLoopLessThanEqualTo_def ForLoopEqualTo_def default_arg_def)

text \<open>
  C8. The example of \<^verbatim>\<open>loop_unroller_examples.cpp\<close>, lines 24 to 29: from 1 to 64 with
  \<^verbatim>\<open>less_equal\<close> and \<^verbatim>\<open>multiplies\<close> by 2. The object of the state can be created, and
  the callback is called for 1, 2, 4, 8, 16, 32, 64, in this order.
\<close>

theorem doubling_rule:
  "complete \<lparr>CurrIdx = 1, EndIdx = 64, ChangeVal = 2, Comparator = std_less_equal,
              Modifier = std_multiplies, StartIdx = 1\<rparr> =
     Inr \<lparr>CurrIdx = 1, EndIdx = 64, ChangeVal = 2, Comparator = std_less_equal,
          Modifier = std_multiplies, StartIdx = 1\<rparr> \<and>
   ForLoop \<lparr>CurrIdx = 1, EndIdx = 64, ChangeVal = 2, Comparator = std_less_equal,
             Modifier = std_multiplies, StartIdx = 1\<rparr> func args =
     Some (Inr (calls func args [1, 2, 4, 8, 16, 32, 64])) \<and>
   invocations (ForLoop \<lparr>CurrIdx = 1, EndIdx = 64, ChangeVal = 2, Comparator = std_less_equal,
             Modifier = std_multiplies, StartIdx = 1\<rparr> collect ()) =
     Some (Inr (Inr [1, 2, 4, 8, 16, 32, 64]))"
proof (intro conjI)
  show "ForLoop \<lparr>CurrIdx = 1, EndIdx = 64, ChangeVal = 2, Comparator = std_less_equal,
             Modifier = std_multiplies, StartIdx = 1\<rparr> func args =
     Some (Inr (calls func args [1, 2, 4, 8, 16, 32, 64]))"
    by (simp add: ForLoop.simps unroll_eval)
  show "invocations (ForLoop \<lparr>CurrIdx = 1, EndIdx = 64, ChangeVal = 2, Comparator = std_less_equal,
             Modifier = std_multiplies, StartIdx = 1\<rparr> collect ()) =
     Some (Inr (Inr [1, 2, 4, 8, 16, 32, 64]))"
    by (simp add: ForLoop.simps unroll_eval invocations_def seq_def nop_def collect_def)
qed (simp add: unroll_eval)

subsection \<open>\<^verbatim>\<open>Reset\<close> after \<^verbatim>\<open>GetNext\<close>\<close>

lemma advance_Reset:
  "advance n LP = Inr LP' \<Longrightarrow> Reset LP' = LP\<lparr>CurrIdx := StartIdx LP\<rparr>"
proof (induction n arbitrary: LP)
  case 0
  then show ?case by (simp add: Reset_def)
next
  case (Suc n)
  from Suc.prems obtain L where g: "GetNext LP = Inr L" and a: "advance n L = Inr LP'"
    by (auto split: sum.splits)
  from g obtain v where L: "L = LP\<lparr>CurrIdx := v\<rparr>"
    by (auto simp add: GetNext_def split: option.splits)
  from Suc.IH [OF a] show ?case by (simp add: L)
qed

text \<open>
  C6. For every state and every \<open>n\<close>: \<^verbatim>\<open>Reset\<close> of the state that \<open>n\<close> times
  \<^verbatim>\<open>GetNext\<close> gives is the first state with its current index put back to its start
  index; the end index, the change value, the comparator, the modifier and the start
  index are those of the first state. (The states are the specialisations that the
  return types name; whether an object of one can be created is what \<open>complete\<close> says.)
\<close>

theorem Reset_after_GetNext:
  "advance n LP = Inr LP' \<Longrightarrow>
     Reset LP' = LP\<lparr>CurrIdx := StartIdx LP\<rparr> \<and>
     GetCurrIdx (Reset LP') = GetStartIdx LP \<and>
     GetEndIdx (Reset LP') = GetEndIdx LP \<and>
     GetChangeVal (Reset LP') = GetChangeVal LP \<and>
     GetComparator (Reset LP') = GetComparator LP \<and>
     GetModifier (Reset LP') = GetModifier LP \<and>
     GetStartIdx (Reset LP') = GetStartIdx LP"
  using advance_Reset [of n LP LP']
  by (simp add: GetCurrIdx_def GetStartIdx_def GetEndIdx_def GetChangeVal_def
      GetComparator_def GetModifier_def)

theorem Reset_after_GetNext_witness:
  "advance 3 \<lparr>CurrIdx = 1, EndIdx = 10, ChangeVal = 2, Comparator = std_less,
               Modifier = std_plus, StartIdx = 1\<rparr> =
     Inr \<lparr>CurrIdx = 7, EndIdx = 10, ChangeVal = 2, Comparator = std_less,
          Modifier = std_plus, StartIdx = 1\<rparr> \<and>
   Reset \<lparr>CurrIdx = 7, EndIdx = 10, ChangeVal = 2, Comparator = std_less,
           Modifier = std_plus, StartIdx = 1\<rparr> =
     \<lparr>CurrIdx = 1, EndIdx = 10, ChangeVal = 2, Comparator = std_less,
      Modifier = std_plus, StartIdx = 1\<rparr> \<and>
   GetCurrIdx (Reset \<lparr>CurrIdx = 7, EndIdx = 10, ChangeVal = 2, Comparator = std_less,
           Modifier = std_plus, StartIdx = 1\<rparr>) = 1"
proof -
  have a: "advance 3 \<lparr>CurrIdx = 1, EndIdx = 10, ChangeVal = 2, Comparator = std_less,
               Modifier = std_plus, StartIdx = 1\<rparr> =
     Inr \<lparr>CurrIdx = 7, EndIdx = 10, ChangeVal = 2, Comparator = std_less,
          Modifier = std_plus, StartIdx = 1\<rparr>"
    by (simp add: numeral_3_eq_3 unroll_eval)
  show ?thesis
    using a Reset_after_GetNext [OF a] by (simp add: GetStartIdx_def GetCurrIdx_def)
qed

subsection \<open>The nested loop\<close>

lemma seq_nop_left: "seq nop d = d"
  by (rule ext) (simp add: seq_def nop_def)

lemma seq_nop_right: "seq c nop = c"
  by (rule ext) (simp add: seq_def nop_def split: sum.split)

lemma seq_assoc: "seq (seq a b) c = seq a (seq b c)"
  by (rule ext) (simp add: seq_def split: sum.split)

lemma calls_2_append:
  "calls_2 func args (xs @ ys) = seq (calls_2 func args xs) (calls_2 func args ys)"
  by (induction xs) (auto simp add: seq_nop_left seq_assoc)

lemma calls_inner:
  "calls (\<lambda>i (j, a). func i j a) (j, args) is = calls_2 func args (map (\<lambda>i. (i, j)) is)"
  by (induction "is") simp_all

lemma runs_for_valid_complete:
  assumes "runs_for n q" "IsValid q"
  shows "complete q = Inr q"
proof (cases n)
  case 0
  then show ?thesis using assms by (simp add: runs_for_0)
next
  case (Suc m)
  then obtain q' where "object (GetNext q) = Inr q'"
    using assms(1) by (auto simp add: runs_for_Suc split: sum.splits)
  then show ?thesis by (cases "GetNext q") (simp_all add: object_def complete_def)
qed

lemma NestedForLoop_2_at_start:
  assumes q: "runs_for n q" "IsValid q" "CurrIdx q = StartIdx q"
  shows "runs_for m p \<Longrightarrow>
           NestedForLoop_2 p q func args =
             Some (Inr (calls_2 func args
                (concat (map (\<lambda>j. map (\<lambda>i. (i, j)) (visited n q)) (visited m p)))))"
proof (induction m arbitrary: p)
  case 0
  then have "\<not> IsValid p" by (simp add: runs_for_0)
  then show ?case by (subst NestedForLoop_2.simps) simp
next
  case (Suc m)
  from Suc.prems obtain p' where v: "IsValid p" and o: "object (GetNext p) = Inr p'"
    and r: "runs_for m p'"
    by (auto simp add: runs_for_Suc split: sum.splits)
  have reset: "Reset q = q" using q(3) by (simp add: Reset_def)
  have oq: "object (Inr (Reset q)) = Inr q"
    using runs_for_valid_complete [OF q(1,2)] by (simp add: object_def reset)
  have inner: "ForLoop q (\<lambda>i (j, a). func i j a) (GetCurrIdx p, args) =
      Some (Inr (calls_2 func args (map (\<lambda>i. (i, GetCurrIdx p)) (visited n q))))"
    using ForLoop_runs_for [OF q(1), of "\<lambda>i (j, a). func i j a" "(GetCurrIdx p, args)"]
    by (simp only: calls_inner)
  show ?case
    using v q(2) o oq inner Suc.IH [OF r]
    by (subst NestedForLoop_2.simps) (simp add: calls_2_append)
qed

lemma NestedForLoop_2_first_pass:
  assumes p: "runs_for (Suc m) p"
    and q: "runs_for n0 q" "IsValid q"
    and r: "runs_for n (Reset q)" "IsValid (Reset q)"
  shows "NestedForLoop_2 p q func args =
           Some (Inr (calls_2 func args
              (map (\<lambda>i. (i, GetCurrIdx p)) (visited n0 q) @
               concat (map (\<lambda>j. map (\<lambda>i. (i, j)) (visited n (Reset q)))
                         (tl (visited (Suc m) p))))))"
proof -
  from p obtain p' where v: "IsValid p" and o: "object (GetNext p) = Inr p'"
    and m: "runs_for m p'"
    by (auto simp add: runs_for_Suc split: sum.splits)
  have oq: "object (Inr (Reset q)) = Inr (Reset q)"
    using runs_for_valid_complete [OF r] by (simp add: object_def)
  have inner: "ForLoop q (\<lambda>i (j, a). func i j a) (GetCurrIdx p, args) =
      Some (Inr (calls_2 func args (map (\<lambda>i. (i, GetCurrIdx p)) (visited n0 q))))"
    using ForLoop_runs_for [OF q(1), of "\<lambda>i (j, a). func i j a" "(GetCurrIdx p, args)"]
    by (simp only: calls_inner)
  have s: "CurrIdx (Reset q) = StartIdx (Reset q)" by (simp add: Reset_def)
  have rest: "NestedForLoop_2 p' (Reset q) func args =
      Some (Inr (calls_2 func args
         (concat (map (\<lambda>j. map (\<lambda>i. (i, j)) (visited n (Reset q))) (visited m p')))))"
    by (rule NestedForLoop_2_at_start [OF r s m])
  have t: "tl (visited (Suc m) p) = visited m p'" using o by simp
  show ?thesis
    unfolding t using v q(2) o oq inner rest
    by (subst NestedForLoop_2.simps) (simp add: calls_2_append)
qed

text \<open>
  C2, with the first pass as the code has it. A loop is said to run if its chain of states
  reaches, with every state created, a state that fails the predicate. The callback
  gets the inner index first and the outer index second, then the extra arguments, and
  the inner index runs fastest.
  \<^item> The outer loop runs, the inner state is valid, stands at its start index (as every
    state does that is written with the default \<^verbatim>\<open>StartIdx\<close>) and its loop runs: the
    inner sequence starts again from the start index, by \<^verbatim>\<open>Reset\<close>, for each outer
    index.
  \<^item> The outer state is valid and its loop runs, the inner state is valid and its loop
    runs, and the inner state put back to its start index is valid too and its loop
    runs: the pass for the first outer index runs from the current index of the inner
    state as it was passed, and the pass for each later outer index from its start index.
  \<^item> For the outer range from 0 to 2 and the inner range from 0 to 3, both with step 1,
    the pairs are (0,0), (1,0), (2,0), (0,1), (1,1), (2,1).
  Nothing is said here of a valid outer state with an inner state that is not valid at
  its current or at its start index: see C4.
\<close>

theorem NestedForLoop_2_inner_fastest:
  "(runs_for m p \<and> runs_for n q \<and> IsValid q \<and> CurrIdx q = StartIdx q \<longrightarrow>
      NestedForLoop_2 p q func args =
        Some (Inr (calls_2 func args
           (concat (map (\<lambda>j. map (\<lambda>i. (i, j)) (visited n q)) (visited m p)))))) \<and>
   (runs_for (Suc m) p \<and> runs_for n0 q \<and> IsValid q \<and>
    runs_for n (Reset q) \<and> IsValid (Reset q) \<longrightarrow>
      NestedForLoop_2 p q func args =
        Some (Inr (calls_2 func args
           (map (\<lambda>i. (i, GetCurrIdx p)) (visited n0 q) @
            concat (map (\<lambda>j. map (\<lambda>i. (i, j)) (visited n (Reset q)))
                      (tl (visited (Suc m) p))))))) \<and>
   NestedForLoop_2
     \<lparr>CurrIdx = 0, EndIdx = 2, ChangeVal = 1, Comparator = std_less,
      Modifier = std_plus, StartIdx = 0\<rparr>
     \<lparr>CurrIdx = 0, EndIdx = 3, ChangeVal = 1, Comparator = std_less,
      Modifier = std_plus, StartIdx = 0\<rparr> func args =
     Some (Inr (calls_2 func args [(0, 0), (1, 0), (2, 0), (0, 1), (1, 1), (2, 1)]))"
proof (intro conjI impI)
  assume "runs_for m p \<and> runs_for n q \<and> IsValid q \<and> CurrIdx q = StartIdx q"
  then show "NestedForLoop_2 p q func args =
      Some (Inr (calls_2 func args
         (concat (map (\<lambda>j. map (\<lambda>i. (i, j)) (visited n q)) (visited m p)))))"
    using NestedForLoop_2_at_start [of n q m p func args] by blast
next
  assume "runs_for (Suc m) p \<and> runs_for n0 q \<and> IsValid q \<and>
    runs_for n (Reset q) \<and> IsValid (Reset q)"
  then show "NestedForLoop_2 p q func args =
        Some (Inr (calls_2 func args
           (map (\<lambda>i. (i, GetCurrIdx p)) (visited n0 q) @
            concat (map (\<lambda>j. map (\<lambda>i. (i, j)) (visited n (Reset q)))
                      (tl (visited (Suc m) p))))))"
    using NestedForLoop_2_first_pass [of m p n0 q n func args] by blast
next
  show "NestedForLoop_2
     \<lparr>CurrIdx = 0, EndIdx = 2, ChangeVal = 1, Comparator = std_less,
      Modifier = std_plus, StartIdx = 0\<rparr>
     \<lparr>CurrIdx = 0, EndIdx = 3, ChangeVal = 1, Comparator = std_less,
      Modifier = std_plus, StartIdx = 0\<rparr> func args =
     Some (Inr (calls_2 func args [(0, 0), (1, 0), (2, 0), (0, 1), (1, 1), (2, 1)]))"
    by (simp add: NestedForLoop_2.simps ForLoop.simps unroll_eval seq_nop_right seq_assoc)
qed

theorem NestedForLoop_2_inner_fastest_witness:
  "runs_for 2 \<lparr>CurrIdx = 0, EndIdx = 2, ChangeVal = 1, Comparator = std_less,
                 Modifier = std_plus, StartIdx = 0\<rparr> \<and>
   runs_for 2 \<lparr>CurrIdx = 10, EndIdx = 8, ChangeVal = - 1, Comparator = std_greater,
                 Modifier = std_plus, StartIdx = 10\<rparr> \<and>
   IsValid \<lparr>CurrIdx = 10, EndIdx = 8, ChangeVal = - 1, Comparator = std_greater,
              Modifier = std_plus, StartIdx = 10\<rparr> \<and>
   NestedForLoop_2
     \<lparr>CurrIdx = 0, EndIdx = 2, ChangeVal = 1, Comparator = std_less,
      Modifier = std_plus, StartIdx = 0\<rparr>
     \<lparr>CurrIdx = 10, EndIdx = 8, ChangeVal = - 1, Comparator = std_greater,
      Modifier = std_plus, StartIdx = 10\<rparr> collect_2 () =
     Some (Inr (calls_2 collect_2 () [(10, 0), (9, 0), (10, 1), (9, 1)])) \<and>
   runs_for 1 \<lparr>CurrIdx = 9, EndIdx = 8, ChangeVal = - 1, Comparator = std_greater,
                 Modifier = std_plus, StartIdx = 10\<rparr> \<and>
   IsValid \<lparr>CurrIdx = 9, EndIdx = 8, ChangeVal = - 1, Comparator = std_greater,
              Modifier = std_plus, StartIdx = 10\<rparr> \<and>
   NestedForLoop_2
     \<lparr>CurrIdx = 0, EndIdx = 2, ChangeVal = 1, Comparator = std_less,
      Modifier = std_plus, StartIdx = 0\<rparr>
     \<lparr>CurrIdx = 9, EndIdx = 8, ChangeVal = - 1, Comparator = std_greater,
      Modifier = std_plus, StartIdx = 10\<rparr> collect_2 () =
     Some (Inr (calls_2 collect_2 () [(9, 0), (10, 1), (9, 1)]))"
proof -
  let ?p = "\<lparr>CurrIdx = 0, EndIdx = 2, ChangeVal = 1, Comparator = std_less,
              Modifier = std_plus, StartIdx = 0\<rparr>"
  let ?q = "\<lparr>CurrIdx = 10, EndIdx = 8, ChangeVal = - 1, Comparator = std_greater,
              Modifier = std_plus, StartIdx = 10\<rparr>"
  let ?q' = "\<lparr>CurrIdx = 9, EndIdx = 8, ChangeVal = - 1, Comparator = std_greater,
               Modifier = std_plus, StartIdx = 10\<rparr>"
  have p: "runs_for 2 ?p" by code_simp
  have p': "runs_for (Suc 1) ?p" by code_simp
  have q: "runs_for 2 ?q" by code_simp
  have v: "IsValid ?q" by (simp add: IsValid_def std_greater_def)
  have s: "CurrIdx ?q = StartIdx ?q" by simp
  have q': "runs_for 1 ?q'" by code_simp
  have v': "IsValid ?q'" by (simp add: IsValid_def std_greater_def)
  have r: "Reset ?q' = ?q" by (simp add: Reset_def)
  have l: "concat (map (\<lambda>j. map (\<lambda>i. (i, j)) (visited 2 ?q)) (visited 2 ?p)) =
             [(10, 0), (9, 0), (10, 1), (9, 1)]"
    by code_simp
  have l': "map (\<lambda>i. (i, GetCurrIdx ?p)) (visited 1 ?q') @
            concat (map (\<lambda>j. map (\<lambda>i. (i, j)) (visited 2 ?q)) (tl (visited (Suc 1) ?p))) =
             [(9, 0), (10, 1), (9, 1)]"
    by code_simp
  from p q v s NestedForLoop_2_inner_fastest [of 2 ?p 2 ?q collect_2 "()"]
  have "NestedForLoop_2 ?p ?q collect_2 () =
      Some (Inr (calls_2 collect_2 ()
         (concat (map (\<lambda>j. map (\<lambda>i. (i, j)) (visited 2 ?q)) (visited 2 ?p)))))"
    by blast
  then have a: "NestedForLoop_2 ?p ?q collect_2 () =
      Some (Inr (calls_2 collect_2 () [(10, 0), (9, 0), (10, 1), (9, 1)]))"
    by (simp only: l)
  from p' q' v' q v NestedForLoop_2_inner_fastest [of 1 ?p 2 ?q' collect_2 "()" 1]
  have "NestedForLoop_2 ?p ?q' collect_2 () =
      Some (Inr (calls_2 collect_2 ()
           (map (\<lambda>i. (i, GetCurrIdx ?p)) (visited 1 ?q') @
            concat (map (\<lambda>j. map (\<lambda>i. (i, j)) (visited 2 (Reset ?q')))
                      (tl (visited (Suc 1) ?p))))))"
    unfolding r by blast
  then have b: "NestedForLoop_2 ?p ?q' collect_2 () =
      Some (Inr (calls_2 collect_2 () [(9, 0), (10, 1), (9, 1)]))"
    by (simp only: r l')
  show ?thesis using p q v a q' v' b by blast
qed

text \<open>
  The claim for every inner state fails: line 301 runs \<^verbatim>\<open>ForLoop\<close> on the inner state
  as it was passed, and only the later passes start from \<^verbatim>\<open>LP_in::Reset()\<close>. The
  inner state \<^verbatim>\<open>LoopParams<0, 3>::GetNext()\<close> has the current index 1 and the start
  index 0; both states are valid, and the first pass leaves out the pair (0,0).
\<close>

theorem NestedForLoop_2_inner_fastest_counterexample:
  "IsValid \<lparr>CurrIdx = 0, EndIdx = 2, ChangeVal = 1, Comparator = std_less,
              Modifier = std_plus, StartIdx = 0\<rparr> \<and>
   IsValid \<lparr>CurrIdx = 1, EndIdx = 3, ChangeVal = 1, Comparator = std_less,
              Modifier = std_plus, StartIdx = 0\<rparr> \<and>
   GetNext \<lparr>CurrIdx = 0, EndIdx = 3, ChangeVal = 1, Comparator = std_less,
              Modifier = std_plus, StartIdx = 0\<rparr> =
     Inr \<lparr>CurrIdx = 1, EndIdx = 3, ChangeVal = 1, Comparator = std_less,
          Modifier = std_plus, StartIdx = 0\<rparr> \<and>
   invocations (NestedForLoop_2
     \<lparr>CurrIdx = 0, EndIdx = 2, ChangeVal = 1, Comparator = std_less,
      Modifier = std_plus, StartIdx = 0\<rparr>
     \<lparr>CurrIdx = 1, EndIdx = 3, ChangeVal = 1, Comparator = std_less,
      Modifier = std_plus, StartIdx = 0\<rparr> collect_2 ()) =
     Some (Inr (Inr [(1, 0), (2, 0), (0, 1), (1, 1), (2, 1)])) \<and>
   invocations (NestedForLoop_2
     \<lparr>CurrIdx = 0, EndIdx = 2, ChangeVal = 1, Comparator = std_less,
      Modifier = std_plus, StartIdx = 0\<rparr>
     \<lparr>CurrIdx = 1, EndIdx = 3, ChangeVal = 1, Comparator = std_less,
      Modifier = std_plus, StartIdx = 0\<rparr> collect_2 ()) \<noteq>
     Some (Inr (Inr [(0, 0), (1, 0), (2, 0), (0, 1), (1, 1), (2, 1)]))"
  by (simp add: NestedForLoop_2.simps ForLoop.simps unroll_eval invocations_def seq_def
      nop_def collect_2_def)

lemma NestedForLoop_2_no_overload:
  "IsValid p \<Longrightarrow> \<not> IsValid q \<Longrightarrow>
     NestedForLoop_2 p q func args = Some (Inl NoMatchingFunction)"
  by (subst NestedForLoop_2.simps) simp

text \<open>
  C4. An inner range of length zero under a valid outer state. The claim has no call of
  the callback and a normal return. The code has no overload for this case (line 295
  asks for an outer state that is not valid, line 299 for a valid inner state), so the
  call is rejected: here for the outer range from 0 to 2 and the inner range from 0 to 0.
  \<^verbatim>\<open>ForLoop\<close> itself accepts the same inner state and calls the callback for no
  index.
\<close>

theorem NestedForLoop_2_empty_inner_range:
  "IsValid \<lparr>CurrIdx = 0, EndIdx = 2, ChangeVal = 1, Comparator = std_less,
              Modifier = std_plus, StartIdx = 0\<rparr> \<and>
   \<not> IsValid \<lparr>CurrIdx = 0, EndIdx = 0, ChangeVal = 1, Comparator = std_less,
                Modifier = std_plus, StartIdx = 0\<rparr> \<and>
   NestedForLoop_2
     \<lparr>CurrIdx = 0, EndIdx = 2, ChangeVal = 1, Comparator = std_less,
      Modifier = std_plus, StartIdx = 0\<rparr>
     \<lparr>CurrIdx = 0, EndIdx = 0, ChangeVal = 1, Comparator = std_less,
      Modifier = std_plus, StartIdx = 0\<rparr> collect_2 () = Some (Inl NoMatchingFunction) \<and>
   ForLoop \<lparr>CurrIdx = 0, EndIdx = 0, ChangeVal = 1, Comparator = std_less,
             Modifier = std_plus, StartIdx = 0\<rparr> collect () = Some (Inr (calls collect () []))"
  by (simp add: NestedForLoop_2.simps ForLoop.simps unroll_eval)

end
